theory Spec2Isabelle
  imports Main "HOL-Library.Sublist"
begin

section \<open>Values, exceptions and the outside world\<close>

text \<open>
  The two notebooks (\<^verbatim>\<open>Automation_Using_Globus_Flows.ipynb\<close>, called the main notebook,
  and its variant) handle JSON documents: the flow definition, the flow input and the
  payloads the Globus services answer with. A Python \<^verbatim>\<open>dict\<close> with string keys is an
  association list in the order the keys were written, looked up with \<open>map_of\<close>; every
  dictionary of the notebooks holds each key once. Numbers are the integers (the only
  numbers the notebooks write are the two wait times).

  A cell is a sequence of statements. A statement that raises ends the cell, which is
  written out as a case distinction after every expression that can raise. The cells
  print as they go; a print changes nothing the properties below speak of and is left
  out, except for the subscripts inside it, which can raise.
\<close>

datatype json =
    JNull
  | JBool bool
  | JInt int
  | JStr string
  | JList "json list"
  | JObj "(string \<times> json) list"

text \<open>
  The exceptions a cell can end with. \<open>KeyError\<close> carries the missing key, as Python's
  does. \<open>ServiceError\<close> stands for whatever a call into the Globus SDK raises (a
  network failure, an HTTP error status), \<open>DecodeError\<close> for what \<^verbatim>\<open>base64\<close> and
  \<^verbatim>\<open>pickle\<close> raise on malformed data.
\<close>

datatype error =
    KeyError json
  | TypeError
  | ServiceError string
  | DecodeError

text \<open>
  \<^verbatim>\<open>obj[k]\<close> for a string literal \<^verbatim>\<open>k\<close>: a dictionary is looked up and raises
  \<^verbatim>\<open>KeyError\<close> on a missing key; every other JSON value raises \<^verbatim>\<open>TypeError\<close>
  (\<^verbatim>\<open>None\<close>, booleans and numbers are not subscriptable, strings and lists take
  integer indices only). A response object of the SDK subscripts its parsed body, so a
  response is modelled by the JSON value of its body.
\<close>

fun getitem :: "json \<Rightarrow> string \<Rightarrow> error + json" where
  "getitem (JObj kvs) k =
     (case map_of kvs k of None \<Rightarrow> Inl (KeyError (JStr k)) | Some v \<Rightarrow> Inr v)"
| "getitem JNull k = Inl TypeError"
| "getitem (JBool b) k = Inl TypeError"
| "getitem (JInt i) k = Inl TypeError"
| "getitem (JStr s) k = Inl TypeError"
| "getitem (JList xs) k = Inl TypeError"

text \<open>
  \<^verbatim>\<open>globus_sdk.AccessTokenAuthorizer(access_token=t)\<close> holds the token it was built
  with.
\<close>

datatype authorizer = AccessTokenAuthorizer json

text \<open>
  The calls that leave the process, with the arguments the notebooks pass (for a call on
  a client that was built from an authorizer, the authorizer). The world records them in
  the order they were issued, together with the total time spent in \<^verbatim>\<open>time.sleep\<close>
  (in seconds).
\<close>

datatype remote_call =
    RunFlow json json json "string option"
  | FlowActionStatus json json json
  | OAuth2UserInfo authorizer
  | ExchangeCode string

record world =
  calls :: "remote_call list"
  slept :: nat

fun is_status_query :: "remote_call \<Rightarrow> bool" where
  "is_status_query (FlowActionStatus flow_id flow_scope flow_action_id) = True"
| "is_status_query (RunFlow flow_id flow_scope flow_input label) = False"
| "is_status_query (OAuth2UserInfo auth) = False"
| "is_status_query (ExchangeCode auth_code) = False"

definition status_queries :: "world \<Rightarrow> nat" where
  "status_queries w = length (filter is_status_query (calls w))"

definition sleep :: "nat \<Rightarrow> world \<Rightarrow> world" where
  "sleep secs w = w\<lparr>slept := slept w + secs\<rparr>"

definition issue :: "remote_call \<Rightarrow> world \<Rightarrow> world" where
  "issue c w = w\<lparr>calls := calls w @ [c]\<rparr>"

text \<open>
  The Globus services are outside the repository: what they answer is a parameter. Each
  answer is a payload or an exception. The answer to a status query may change from one
  query to the next, so \<open>flow_action_status\<close> also takes the number of status queries
  issued before it: a mocked status service is exactly such a sequence of answers.
\<close>

record services =
  run_flow :: "json \<Rightarrow> json \<Rightarrow> json \<Rightarrow> string option \<Rightarrow> error + json"
  flow_action_status :: "nat \<Rightarrow> json \<Rightarrow> json \<Rightarrow> json \<Rightarrow> error + json"

text \<open>
  Functions of Python's library whose code is outside the repository. \<open>py_repr\<close> is
  \<^verbatim>\<open>str\<close> on a value that is not a string; an f-string inserts a string as it is.
  \<open>b64decode\<close> is \<^verbatim>\<open>base64.b64decode\<close> on a string and \<open>pickle_loads\<close> is
  \<^verbatim>\<open>pickle.loads\<close> on the decoded bytes; the object it builds is taken to be a JSON
  value.
\<close>

record pylib =
  py_repr :: "json \<Rightarrow> string"
  b64decode :: "string \<Rightarrow> error + string"
  pickle_loads :: "string \<Rightarrow> error + json"

definition py_format :: "pylib \<Rightarrow> json \<Rightarrow> string" where
  "py_format lib v = (case v of JStr s \<Rightarrow> s | _ \<Rightarrow> py_repr lib v)"

section \<open>Running the flow and waiting for it\<close>

text \<open>
  The loop of the cell "Run the flow":
  \<^verbatim>\<open>
  while flow_status == 'ACTIVE':
      time.sleep(5)
      flow_action = flows_client.flow_action_status(flow_id, flow_scope, flow_action_id)
      flow_status = flow_action['status']
      print(f'Flow status: {flow_status}')
  \<close>
  (the variant sleeps 2). The loop need not end, so it is a partial function: \<open>None\<close>
  is a run that never leaves the loop. A run that leaves it gives the final
  \<^verbatim>\<open>flow_action\<close>, or the exception that ended it, and the world it left.
\<close>

partial_function (option) poll_loop ::
  "nat \<Rightarrow> services \<Rightarrow> json \<Rightarrow> json \<Rightarrow> json \<Rightarrow> json \<Rightarrow> json \<Rightarrow> world
    \<Rightarrow> ((error + json) \<times> world) option" where
  "poll_loop interval svc flow_id flow_scope flow_action_id flow_action flow_status w =
    (if flow_status = JStr ''ACTIVE'' then
       (let w1 = sleep interval w;
            w2 = issue (FlowActionStatus flow_id flow_scope flow_action_id) w1
        in case flow_action_status svc (status_queries w1) flow_id flow_scope flow_action_id of
             Inl e \<Rightarrow> Some (Inl e, w2)
           | Inr flow_action' \<Rightarrow>
               (case getitem flow_action' ''status'' of
                  Inl e \<Rightarrow> Some (Inl e, w2)
                | Inr flow_status' \<Rightarrow>
                    poll_loop interval svc flow_id flow_scope flow_action_id
                      flow_action' flow_status' w2))
     else Some (Inr flow_action, w))"

text \<open>
  The cell up to the loop, shared by the two notebooks:
  \<^verbatim>\<open>
  flow_action = flows_client.run_flow(flow_id, flow_scope, flow_input[, label=run_label])
  flow_action_id = flow_action['action_id']
  flow_status = flow_action['status']
  \<close>
\<close>

definition start_and_poll ::
  "nat \<Rightarrow> services \<Rightarrow> json \<Rightarrow> json \<Rightarrow> json \<Rightarrow> string option \<Rightarrow> world
    \<Rightarrow> ((error + json) \<times> world) option" where
  "start_and_poll interval svc flow_id flow_scope flow_input label w =
    (let w1 = issue (RunFlow flow_id flow_scope flow_input label) w
     in case run_flow svc flow_id flow_scope flow_input label of
          Inl e \<Rightarrow> Some (Inl e, w1)
        | Inr flow_action \<Rightarrow>
            (case getitem flow_action ''action_id'' of
               Inl e \<Rightarrow> Some (Inl e, w1)
             | Inr flow_action_id \<Rightarrow>
                 (case getitem flow_action ''status'' of
                    Inl e \<Rightarrow> Some (Inl e, w1)
                  | Inr flow_status \<Rightarrow>
                      poll_loop interval svc flow_id flow_scope flow_action_id
                        flow_action flow_status w1)))"

text \<open>
  The main notebook labels the run with the user's name and sleeps 5 seconds between
  queries; the variant passes no label and sleeps 2.
\<close>

definition run_the_flow ::
  "pylib \<Rightarrow> services \<Rightarrow> json \<Rightarrow> json \<Rightarrow> json \<Rightarrow> json \<Rightarrow> world
    \<Rightarrow> ((error + json) \<times> world) option" where
  "run_the_flow lib svc primary_identity flow_id flow_scope flow_input w =
    (case getitem primary_identity ''preferred_username'' of
       Inl e \<Rightarrow> Some (Inl e, w)
     | Inr username \<Rightarrow>
         start_and_poll 5 svc flow_id flow_scope flow_input
           (Some (''Tutorial run for '' @ py_format lib username)) w)"

definition run_the_flow_variant ::
  "services \<Rightarrow> json \<Rightarrow> json \<Rightarrow> json \<Rightarrow> world \<Rightarrow> ((error + json) \<times> world) option" where
  "run_the_flow_variant svc flow_id flow_scope flow_input w =
     start_and_poll 2 svc flow_id flow_scope flow_input None w"

text \<open>
  What a mocked status service reports: an answer is \<open>running\<close> when it is a payload
  whose status is the string \<^verbatim>\<open>ACTIVE\<close>, and \<open>terminal\<close> when it is a payload with any
  other status.
\<close>

definition running :: "error + json \<Rightarrow> bool" where
  "running r =
     (case r of Inl e \<Rightarrow> False | Inr fa \<Rightarrow> getitem fa ''status'' = Inr (JStr ''ACTIVE''))"

definition terminal :: "error + json \<Rightarrow> bool" where
  "terminal r =
     (case r of
        Inl e \<Rightarrow> False
      | Inr fa \<Rightarrow>
          (case getitem fa ''status'' of Inl e \<Rightarrow> False | Inr st \<Rightarrow> st \<noteq> JStr ''ACTIVE''))"

text \<open>
  An answer makes the loop body raise \<open>e\<close> when the call itself raised \<open>e\<close>, or when
  the subscript \<^verbatim>\<open>flow_action['status']\<close> of the payload raised it.
\<close>

definition query_raises :: "error + json \<Rightarrow> error \<Rightarrow> bool" where
  "query_raises r e =
     (case r of Inl e' \<Rightarrow> e' = e | Inr fa \<Rightarrow> getitem fa ''status'' = Inl e)"

text \<open>
  Starting with query number \<open>q\<close>, the status service reports a running status
  exactly \<open>N\<close> times and then a terminal one.
\<close>

definition reports_running_then_terminal ::
  "services \<Rightarrow> json \<Rightarrow> json \<Rightarrow> json \<Rightarrow> nat \<Rightarrow> nat \<Rightarrow> bool" where
  "reports_running_then_terminal svc flow_id flow_scope flow_action_id q N =
     ((\<forall>k<N. running (flow_action_status svc (q + k) flow_id flow_scope flow_action_id)) \<and>
      terminal (flow_action_status svc (q + N) flow_id flow_scope flow_action_id))"

text \<open>
  The run was started and \<^verbatim>\<open>run_flow\<close> answered with the action id
  \<open>flow_action_id\<close> and the status \<^verbatim>\<open>ACTIVE\<close>.
\<close>

definition started_active ::
  "services \<Rightarrow> json \<Rightarrow> json \<Rightarrow> json \<Rightarrow> string option \<Rightarrow> json \<Rightarrow> bool" where
  "started_active svc flow_id flow_scope flow_input label flow_action_id =
     (case run_flow svc flow_id flow_scope flow_input label of
        Inl e \<Rightarrow> False
      | Inr fa \<Rightarrow>
          getitem fa ''action_id'' = Inr flow_action_id \<and>
          getitem fa ''status'' = Inr (JStr ''ACTIVE''))"

text \<open>One pass through the loop body leaves this world: a sleep, then a status query.\<close>

definition poll_once :: "nat \<Rightarrow> json \<Rightarrow> json \<Rightarrow> json \<Rightarrow> world \<Rightarrow> world" where
  "poll_once interval flow_id flow_scope flow_action_id w =
     issue (FlowActionStatus flow_id flow_scope flow_action_id) (sleep interval w)"

text \<open>
  A mocked environment for concrete runs: the run starts \<^verbatim>\<open>ACTIVE\<close>, the first
  \<open>n\<close> status queries answer \<^verbatim>\<open>ACTIVE\<close> and every later one answers
  \<open>final\<close>.
\<close>

definition payload :: "string \<Rightarrow> json" where
  "payload st = JObj [(''action_id'', JStr ''run-1''), (''status'', JStr st)]"

definition mock_services :: "nat \<Rightarrow> string \<Rightarrow> services" where
  "mock_services n final =
     \<lparr>run_flow = (\<lambda>flow_id flow_scope flow_input label. Inr (payload ''ACTIVE'')),
      flow_action_status = (\<lambda>k flow_id flow_scope flow_action_id.
        if k < n then Inr (payload ''ACTIVE'') else Inr (payload final))\<rparr>"

text \<open>A status service that cannot be reached.\<close>

definition failing_services :: services where
  "failing_services =
     \<lparr>run_flow = (\<lambda>flow_id flow_scope flow_input label. Inr (payload ''ACTIVE'')),
      flow_action_status = (\<lambda>k flow_id flow_scope flow_action_id.
        Inl (ServiceError ''unreachable''))\<rparr>"

definition mock_lib :: pylib where
  "mock_lib =
     \<lparr>py_repr = (\<lambda>v. ''?''),
      b64decode = (\<lambda>s. Inr s),
      pickle_loads = (\<lambda>bytes. Inr (JObj [(''tokens'', JObj [])]))\<rparr>"

definition world0 :: world where
  "world0 = \<lparr>calls = [], slept = 0\<rparr>"

section \<open>Reading the access rule out of the final payload\<close>

text \<open>
  Chained subscripts \<^verbatim>\<open>obj[k1][k2]...\<close> are evaluated from the left; the first one
  that raises ends the evaluation.
\<close>

fun getpath :: "json \<Rightarrow> string list \<Rightarrow> error + json" where
  "getpath v [] = Inr v"
| "getpath v (k # ks) = (case getitem v k of Inl e \<Rightarrow> Inl e | Inr v' \<Rightarrow> getpath v' ks)"

text \<open>
  Both notebooks read the id of the access rule from the output of the step
  \<^verbatim>\<open>SetPermission\<close>:
  \<^verbatim>\<open>
  access_rule_id = flow_action['details']['output']['SetPermission']['details']['access_id']
  \<close>
\<close>

definition access_rule_id :: "json \<Rightarrow> error + json" where
  "access_rule_id flow_action =
     getpath flow_action [''details'', ''output'', ''SetPermission'', ''details'', ''access_id'']"

text \<open>
  A synthetic final payload: the run recorded, for each step it reached, the result bag
  of that step.
\<close>

definition result_payload :: "(string \<times> (string \<times> json) list) list \<Rightarrow> json" where
  "result_payload steps =
     JObj [(''status'', JStr ''SUCCEEDED''),
           (''details'', JObj [(''output'',
              JObj (map (\<lambda>(name, bag). (name, JObj [(''details'', JObj bag)])) steps))])]"

section \<open>The flow definition and the flow input\<close>

text \<open>The flow definition of the main notebook, key by key as the cell writes it.\<close>

definition flow_definition :: json where
  "flow_definition =
     JObj [
       (''Comment'', JStr ''Move files to guest collection and set access permissions''),
       (''StartAt'', JStr ''MoveFiles''),
       (''States'', JObj [
         (''MoveFiles'', JObj [
           (''Comment'', JStr
              ''Transfer from Globus Tutorial Endpoint 1 to a guest collection on Petrel''),
           (''Type'', JStr ''Action''),
           (''ActionUrl'', JStr ''https://actions.automate.globus.org/transfer/transfer''),
           (''ActionScope'', JStr
              ''https://auth.globus.org/scopes/actions.globus.org/transfer/transfer''),
           (''Parameters'', JObj [
             (''source_endpoint_id.$'', JStr ''$.input.source_endpoint_id''),
             (''destination_endpoint_id.$'', JStr ''$.input.destination_endpoint_id''),
             (''transfer_items'', JList [
               JObj [
                 (''source_path.$'', JStr ''$.input.source_path''),
                 (''destination_path.$'', JStr ''$.input.destination_path''),
                 (''recursive'', JBool True)]])]),
           (''ResultPath'', JStr ''$.MoveFiles''),
           (''WaitTime'', JInt 60),
           (''Next'', JStr ''SetPermission'')]),
         (''SetPermission'', JObj [
           (''Comment'', JStr ''Grant read permission on the data to the Tutorial users group''),
           (''Type'', JStr ''Action''),
           (''ActionUrl'', JStr ''https://actions.automate.globus.org/transfer/set_permission''),
           (''ActionScope'', JStr
              ''https://auth.globus.org/scopes/actions.globus.org/transfer/set_permission''),
           (''Parameters'', JObj [
             (''endpoint_id.$'', JStr ''$.input.destination_endpoint_id''),
             (''path.$'', JStr ''$.input.destination_path''),
             (''permissions'', JStr ''r''),
             (''principal.$'', JStr ''$.input.principal''),
             (''principal_type.$'', JStr ''$.input.principal_type''),
             (''operation'', JStr ''CREATE'')]),
           (''ResultPath'', JStr ''$.SetPermission''),
           (''End'', JBool True)])])]"

text \<open>
  The variant's definition: the transfer also sets \<^verbatim>\<open>sync_level\<close>, and waits up to an
  hour.
\<close>

definition flow_definition_variant :: json where
  "flow_definition_variant =
     JObj [
       (''Comment'', JStr ''Move files to guest collection and set access permissions''),
       (''StartAt'', JStr ''MoveFiles''),
       (''States'', JObj [
         (''MoveFiles'', JObj [
           (''Comment'', JStr
              ''Transfer from Globus Tutorial Endpoint 1 to a guest collection on Petrel''),
           (''Type'', JStr ''Action''),
           (''ActionUrl'', JStr ''https://actions.automate.globus.org/transfer/transfer''),
           (''ActionScope'', JStr
              ''https://auth.globus.org/scopes/actions.globus.org/transfer/transfer''),
           (''Parameters'', JObj [
             (''source_endpoint_id.$'', JStr ''$.input.source_endpoint_id''),
             (''destination_endpoint_id.$'', JStr ''$.input.destination_endpoint_id''),
             (''sync_level'', JStr ''exists''),
             (''transfer_items'', JList [
               JObj [
                 (''source_path.$'', JStr ''$.input.source_path''),
                 (''destination_path.$'', JStr ''$.input.destination_path''),
                 (''recursive'', JBool True)]])]),
           (''ResultPath'', JStr ''$.MoveFiles''),
           (''WaitTime'', JInt 3600),
           (''Next'', JStr ''SetPermission'')]),
         (''SetPermission'', JObj [
           (''Comment'', JStr ''Grant read permission on the data to the Tutorial users group''),
           (''Type'', JStr ''Action''),
           (''ActionUrl'', JStr ''https://actions.automate.globus.org/transfer/set_permission''),
           (''ActionScope'', JStr
              ''https://auth.globus.org/scopes/actions.globus.org/transfer/set_permission''),
           (''Parameters'', JObj [
             (''endpoint_id.$'', JStr ''$.input.destination_endpoint_id''),
             (''path.$'', JStr ''$.input.destination_path''),
             (''permissions'', JStr ''r''),
             (''principal.$'', JStr ''$.input.principal''),
             (''principal_type.$'', JStr ''$.input.principal_type''),
             (''operation'', JStr ''CREATE'')]),
           (''ResultPath'', JStr ''$.SetPermission''),
           (''End'', JBool True)])])]"

text \<open>
  The endpoints and the group the notebooks name in their first cell (the main notebook
  calls them \<^verbatim>\<open>source_endpoint\<close>, \<^verbatim>\<open>destination_endpoint\<close> and
  \<^verbatim>\<open>my_collaborators\<close>, the variant \<^verbatim>\<open>tutorial_endpoint\<close>, \<^verbatim>\<open>petrel_endpoint\<close> and
  \<^verbatim>\<open>tutorial_users_group\<close>).
\<close>

definition source_endpoint :: string where
  "source_endpoint = ''ddb59aef-6d04-11e5-ba46-22000b92c6ec''"

definition destination_endpoint :: string where
  "destination_endpoint = ''e56c36e4-1063-11e6-a747-22000bf2d559''"

definition my_collaborators :: string where
  "my_collaborators = ''50b6a29c-63ac-11e4-8062-22000ab68755''"

text \<open>
  The flow input of the main notebook. The destination path is an f-string over the
  identity id the Auth service returned:
  \<^verbatim>\<open>destination_path = f"/automate-tutorial/{identity_id}-shared-files/"\<close>.
\<close>

definition destination_path :: "pylib \<Rightarrow> json \<Rightarrow> string" where
  "destination_path lib identity_id =
     ''/automate-tutorial/'' @ py_format lib identity_id @ ''-shared-files/''"

definition flow_input :: "pylib \<Rightarrow> json \<Rightarrow> json" where
  "flow_input lib identity_id =
     JObj [(''input'', JObj [
       (''source_endpoint_id'', JStr source_endpoint),
       (''source_path'', JStr ''/share/godata''),
       (''destination_endpoint_id'', JStr destination_endpoint),
       (''destination_path'', JStr (destination_path lib identity_id)),
       (''principal'', JStr my_collaborators),
       (''principal_type'', JStr ''group'')])]"

text \<open>The variant grants access to the user: the principal is the identity id itself.\<close>

definition flow_input_variant :: "json \<Rightarrow> json" where
  "flow_input_variant identity_id =
     JObj [(''input'', JObj [
       (''source_path'', JStr ''/share/godata''),
       (''destination_path'', JStr ''/disthome-automate/''),
       (''source_endpoint_id'', JStr source_endpoint),
       (''destination_endpoint_id'', JStr destination_endpoint),
       (''principal'', identity_id),
       (''principal_type'', JStr ''identity'')])]"

text \<open>
  The shape of a definition, as the Flows service reads it: \<^verbatim>\<open>StartAt\<close> names the
  first step, \<^verbatim>\<open>States\<close> maps step names to steps, a step either is marked
  \<^verbatim>\<open>End\<close> or names the step that follows it in \<^verbatim>\<open>Next\<close>.
\<close>

definition start_at :: "json \<Rightarrow> error + json" where
  "start_at D = getitem D ''StartAt''"

definition states :: "json \<Rightarrow> (string \<times> json) list" where
  "states D = (case getitem D ''States'' of Inr (JObj sts) \<Rightarrow> sts | _ \<Rightarrow> [])"

definition state_names :: "json \<Rightarrow> string list" where
  "state_names D = map fst (states D)"

definition is_end :: "json \<Rightarrow> bool" where
  "is_end state = (getitem state ''End'' = Inr (JBool True))"

definition next_ok :: "json \<Rightarrow> json \<Rightarrow> bool" where
  "next_ok D state =
     (is_end state \<or>
      (case getitem state ''Next'' of Inr (JStr t) \<Rightarrow> t \<in> set (state_names D) | _ \<Rightarrow> False))"

text \<open>
  \<open>path_to_end sts s p\<close>: \<open>p\<close> lists the steps of a path that starts at \<open>s\<close>, follows
  the \<^verbatim>\<open>Next\<close> references and stops at a step marked \<^verbatim>\<open>End\<close>.
\<close>

inductive path_to_end :: "(string \<times> json) list \<Rightarrow> string \<Rightarrow> string list \<Rightarrow> bool"
  for sts :: "(string \<times> json) list" where
  at_end: "map_of sts s = Some state \<Longrightarrow> is_end state \<Longrightarrow> path_to_end sts s [s]"
| step: "map_of sts s = Some state \<Longrightarrow> \<not> is_end state \<Longrightarrow>
         getitem state ''Next'' = Inr (JStr t) \<Longrightarrow> path_to_end sts t p \<Longrightarrow>
         path_to_end sts s (s # p)"

text \<open>
  A definition is structurally valid with start \<open>s\<close> and path \<open>p\<close>: \<^verbatim>\<open>StartAt\<close> is
  \<open>s\<close>, exactly one step has that name, every step that is not terminal names an
  existing step as its successor, and \<open>p\<close> is the one path from \<open>s\<close> to a terminal step.
\<close>

definition structurally_valid :: "json \<Rightarrow> string \<Rightarrow> string list \<Rightarrow> bool" where
  "structurally_valid D s p =
     (start_at D = Inr (JStr s) \<and>
      distinct (state_names D) \<and>
      s \<in> set (state_names D) \<and>
      list_all (next_ok D) (map snd (states D)) \<and>
      (\<forall>q. path_to_end (states D) s q = (q = p)))"

text \<open>
  The placeholders of a definition: in the \<^verbatim>\<open>Parameters\<close> of a step, at any depth,
  an entry whose key ends in \<^verbatim>\<open>.$\<close> takes its value from the path it names.
\<close>

fun placeholder_paths :: "json \<Rightarrow> string list" where
  "placeholder_paths (JObj kvs) =
     concat (map (\<lambda>(k, v).
        (if suffix ''.$'' k then (case v of JStr p \<Rightarrow> [p] | _ \<Rightarrow> []) else [])
        @ placeholder_paths v) kvs)"
| "placeholder_paths (JList xs) = concat (map placeholder_paths xs)"
| "placeholder_paths v = []"

definition placeholders :: "json \<Rightarrow> string list" where
  "placeholders D =
     concat (map (\<lambda>(name, state).
        case getitem state ''Parameters'' of Inl e \<Rightarrow> [] | Inr ps \<Rightarrow> placeholder_paths ps)
       (states D))"

text \<open>
  A path \<^verbatim>\<open>$.input.name\<close> has an entry in the run input when the input has the key
  \<^verbatim>\<open>input\<close> and, under it, the key \<^verbatim>\<open>name\<close>.
\<close>

definition input_entry :: "json \<Rightarrow> string \<Rightarrow> bool" where
  "input_entry run_input p =
     (prefix ''$.input.'' p \<and>
      (case getpath run_input [''input'', drop (length ''$.input.'') p] of
         Inl e \<Rightarrow> False
       | Inr v \<Rightarrow> True))"

section \<open>Tokens, identity and the authorization of the flow\<close>

text \<open>
  The Auth service and the SDK's native-app client are outside the repository as well.
  \<open>oauth2_userinfo\<close> is the answer to \<^verbatim>\<open>ac.oauth2_userinfo()\<close> for a client built
  from the given authorizer. \<open>oauth2_start_flow\<close> is the (local) start of the consent
  flow for a client id and the requested scope, \<open>oauth2_exchange_code_for_tokens\<close> the
  answer to the exchange of the code the user typed, and \<open>by_scopes\<close> the lookup
  \<^verbatim>\<open>token_response.by_scopes[scope]\<close>, which the SDK implements.
\<close>

record auth_services =
  oauth2_userinfo :: "authorizer \<Rightarrow> error + json"
  oauth2_start_flow :: "string \<Rightarrow> json \<Rightarrow> error + unit"
  oauth2_exchange_code_for_tokens :: "string \<Rightarrow> json \<Rightarrow> string \<Rightarrow> error + json"
  by_scopes :: "json \<Rightarrow> json \<Rightarrow> error + json"

text \<open>
  The first statement of the token cell of both notebooks:
  \<^verbatim>\<open>
  tokens = pickle.loads(base64.b64decode(os.getenv('GLOBUS_DATA')))['tokens']
  \<close>
  The environment maps the names of the variables that are set to their values.
  \<^verbatim>\<open>os.getenv\<close> returns \<^verbatim>\<open>None\<close> for a variable that is not set, and
  \<^verbatim>\<open>base64.b64decode(None)\<close> raises \<^verbatim>\<open>TypeError\<close>: \<^verbatim>\<open>None\<close> is neither a string
  nor bytes-like.
\<close>

definition os_getenv :: "(string \<rightharpoonup> string) \<Rightarrow> string \<Rightarrow> string option" where
  "os_getenv env name = env name"

definition base64_b64decode :: "pylib \<Rightarrow> string option \<Rightarrow> error + string" where
  "base64_b64decode lib s = (case s of None \<Rightarrow> Inl TypeError | Some x \<Rightarrow> b64decode lib x)"

definition load_tokens :: "pylib \<Rightarrow> (string \<rightharpoonup> string) \<Rightarrow> error + json" where
  "load_tokens lib env =
     (case base64_b64decode lib (os_getenv env ''GLOBUS_DATA'') of
        Inl e \<Rightarrow> Inl e
      | Inr bytes \<Rightarrow>
          (case pickle_loads lib bytes of
             Inl e \<Rightarrow> Inl e
           | Inr data \<Rightarrow> getitem data ''tokens''))"

text \<open>
  The token cell of the main notebook goes on with the cache of flow scopes and the
  authorizer of the Flows client:
  \<^verbatim>\<open>
  saved_flow_scopes = {}
  flows_authorizer = globus_sdk.AccessTokenAuthorizer(
      access_token=tokens['flows.globus.org']['access_token'])
  flows_client = FlowsClient.new_client(client_id, get_flow_authorizer, flows_authorizer)
  \<close>
  The cell gives the tokens, the empty cache and the authorizer the client is built from.
\<close>

definition token_cell ::
  "pylib \<Rightarrow> (string \<rightharpoonup> string) \<Rightarrow> world
    \<Rightarrow> (error + json \<times> (json \<rightharpoonup> json) \<times> authorizer) \<times> world" where
  "token_cell lib env w =
     (case load_tokens lib env of
        Inl e \<Rightarrow> (Inl e, w)
      | Inr tokens \<Rightarrow>
          (case getpath tokens [''flows.globus.org'', ''access_token''] of
             Inl e \<Rightarrow> (Inl e, w)
           | Inr t \<Rightarrow> (Inr (tokens, Map.empty, AccessTokenAuthorizer t), w)))"

text \<open>
  Looking up the user (the cell "Fetch User Identity" of the main notebook; in the
  variant the same statements follow the loading of the tokens in one cell):
  \<^verbatim>\<open>
  auth_authorizer = globus_sdk.AccessTokenAuthorizer(
      access_token=tokens['auth.globus.org']['access_token'])
  ac = globus_sdk.AuthClient(authorizer=auth_authorizer)
  primary_identity = ac.oauth2_userinfo()
  identity_id = primary_identity['sub']
  print(f"... {primary_identity['preferred_username']} ...")
  print(f"Notifications will be sent to: {primary_identity['email']}")
  \<close>
\<close>

definition fetch_user_identity ::
  "auth_services \<Rightarrow> json \<Rightarrow> world \<Rightarrow> (error + json \<times> json) \<times> world" where
  "fetch_user_identity auth tokens w =
     (case getpath tokens [''auth.globus.org'', ''access_token''] of
        Inl e \<Rightarrow> (Inl e, w)
      | Inr t \<Rightarrow>
          (let auth_authorizer = AccessTokenAuthorizer t;
               w1 = issue (OAuth2UserInfo auth_authorizer) w
           in case oauth2_userinfo auth auth_authorizer of
                Inl e \<Rightarrow> (Inl e, w1)
              | Inr primary_identity \<Rightarrow>
                  (case getitem primary_identity ''sub'' of
                     Inl e \<Rightarrow> (Inl e, w1)
                   | Inr identity_id \<Rightarrow>
                       (case getitem primary_identity ''preferred_username'' of
                          Inl e \<Rightarrow> (Inl e, w1)
                        | Inr username \<Rightarrow>
                            (case getitem primary_identity ''email'' of
                               Inl e \<Rightarrow> (Inl e, w1)
                             | Inr email \<Rightarrow> (Inr (primary_identity, identity_id), w1))))))"

text \<open>
  The token cell of the variant loads the tokens and looks the user up. (The variant
  builds its Flows client in the cell before, without the tokens.)
\<close>

definition token_cell_variant ::
  "pylib \<Rightarrow> auth_services \<Rightarrow> (string \<rightharpoonup> string) \<Rightarrow> world
    \<Rightarrow> (error + json \<times> json \<times> json) \<times> world" where
  "token_cell_variant lib auth env w =
     (case load_tokens lib env of
        Inl e \<Rightarrow> (Inl e, w)
      | Inr tokens \<Rightarrow>
          (case fetch_user_identity auth tokens w of
             (Inl e, w') \<Rightarrow> (Inl e, w')
           | (Inr (primary_identity, identity_id), w') \<Rightarrow>
               (Inr (tokens, primary_identity, identity_id), w')))"

text \<open>
  The cells of a notebook run one after the other, and an exception that no cell
  catches ends the run: the cells after it are not run. \<open>later_cells\<close> stands for the
  rest of the notebook, which reads what the cell bound.
\<close>

definition and_then ::
  "(error + 'a) \<times> world \<Rightarrow> ('a \<Rightarrow> world \<Rightarrow> ((error + 'b) \<times> world) option)
    \<Rightarrow> ((error + 'b) \<times> world) option" where
  "and_then cell later_cells =
     (case cell of (Inl e, w) \<Rightarrow> Some (Inl e, w) | (Inr bound, w) \<Rightarrow> later_cells bound w)"

text \<open>
  A Python \<^verbatim>\<open>dict\<close> takes any hashable value as a key. Lists and dictionaries are not
  hashable (\<^verbatim>\<open>TypeError\<close>); \<^verbatim>\<open>True\<close> and \<^verbatim>\<open>1\<close> are the same key, and so are
  \<^verbatim>\<open>False\<close> and \<^verbatim>\<open>0\<close>. \<open>dict_key\<close> gives the key a value stands for; the cache of
  flow scopes maps such keys to the tokens saved for them.
\<close>

fun dict_key :: "json \<Rightarrow> error + json" where
  "dict_key (JList xs) = Inl TypeError"
| "dict_key (JObj kvs) = Inl TypeError"
| "dict_key (JBool b) = Inr (JInt (if b then 1 else 0))"
| "dict_key JNull = Inr JNull"
| "dict_key (JInt i) = Inr (JInt i)"
| "dict_key (JStr s) = Inr (JStr s)"

text \<open>
  The callback the main notebook hands to the Flows client. It reads the global
  \<^verbatim>\<open>saved_flow_scopes\<close>, here its first argument, and assigns nothing:
  \<^verbatim>\<open>
  def get_flow_authorizer(flow_url, flow_scope, client_id):
      return globus_sdk.AccessTokenAuthorizer(
          access_token=saved_flow_scopes[flow_scope]['access_token'])
  \<close>
\<close>

definition get_flow_authorizer ::
  "(json \<rightharpoonup> json) \<Rightarrow> json \<Rightarrow> json \<Rightarrow> json \<Rightarrow> error + authorizer" where
  "get_flow_authorizer saved_flow_scopes flow_url flow_scope client_id =
     (case dict_key flow_scope of
        Inl e \<Rightarrow> Inl e
      | Inr k \<Rightarrow>
          (case saved_flow_scopes k of
             None \<Rightarrow> Inl (KeyError flow_scope)
           | Some entry \<Rightarrow>
               (case getitem entry ''access_token'' of
                  Inl e \<Rightarrow> Inl e
                | Inr t \<Rightarrow> Inr (AccessTokenAuthorizer t))))"

text \<open>
  The cell "Authorize the newly deployed flow" of the main notebook; \<open>auth_code\<close> is
  what the user types at the prompt:
  \<^verbatim>\<open>
  if flow_scope not in saved_flow_scopes:
      native_auth_client = globus_sdk.NativeAppAuthClient(client_id)
      native_auth_client.oauth2_start_flow(requested_scopes=flow_scope)
      print(f"Login Here:\n\n{native_auth_client.oauth2_get_authorize_url()}")
      auth_code = input('Authorization Code: ')
      token_response = native_auth_client.oauth2_exchange_code_for_tokens(auth_code)
      saved_flow_scopes[flow_scope] = token_response.by_scopes[flow_scope]
      print(json.dumps(saved_flow_scopes, indent=2))
  \<close>
\<close>

definition client_id :: string where
  "client_id = ''f794186b-f330-4595-b6c6-9c9d3e903e47''"

definition authorize_flow ::
  "auth_services \<Rightarrow> string \<Rightarrow> json \<Rightarrow> (json \<rightharpoonup> json) \<Rightarrow> world
    \<Rightarrow> (error + (json \<rightharpoonup> json)) \<times> world" where
  "authorize_flow auth auth_code flow_scope saved_flow_scopes w =
     (case dict_key flow_scope of
        Inl e \<Rightarrow> (Inl e, w)
      | Inr k \<Rightarrow>
          if saved_flow_scopes k = None then
            (case oauth2_start_flow auth client_id flow_scope of
               Inl e \<Rightarrow> (Inl e, w)
             | Inr started \<Rightarrow>
                 (let w1 = issue (ExchangeCode auth_code) w
                  in case oauth2_exchange_code_for_tokens auth client_id flow_scope auth_code of
                       Inl e \<Rightarrow> (Inl e, w1)
                     | Inr token_response \<Rightarrow>
                         (case by_scopes auth token_response flow_scope of
                            Inl e \<Rightarrow> (Inl e, w1)
                          | Inr entry \<Rightarrow> (Inr (saved_flow_scopes(k \<mapsto> entry)), w1))))
          else (Inr saved_flow_scopes, w))"

text \<open>A mocked Auth service: one user, and a token for whatever scope is asked for.\<close>

definition mock_auth :: auth_services where
  "mock_auth =
     \<lparr>oauth2_userinfo = (\<lambda>authorizer. Inr (JObj [(''sub'', JStr ''id-1''),
        (''preferred_username'', JStr ''u''), (''email'', JStr ''u@example.org'')])),
      oauth2_start_flow = (\<lambda>client scope. Inr ()),
      oauth2_exchange_code_for_tokens = (\<lambda>client scope code.
        Inr (JObj [(''access_token'', JStr ''flow-token'')])),
      by_scopes = (\<lambda>token_response scope. Inr token_response)\<rparr>"

section \<open>Properties of the poll loop\<close>

lemma status_queries_sleep [simp]: "status_queries (sleep secs w) = status_queries w"
  by (simp add: status_queries_def sleep_def)

lemma status_queries_issue_status [simp]:
  "status_queries (issue (FlowActionStatus a b c) w) = Suc (status_queries w)"
  by (simp add: status_queries_def issue_def)

lemma status_queries_issue_run [simp]:
  "status_queries (issue (RunFlow a b c l) w) = status_queries w"
  by (simp add: status_queries_def issue_def)

lemma slept_sleep [simp]: "slept (sleep secs w) = slept w + secs"
  by (simp add: sleep_def)

lemma slept_issue [simp]: "slept (issue c w) = slept w"
  by (simp add: issue_def)

lemma calls_sleep [simp]: "calls (sleep secs w) = calls w"
  by (simp add: sleep_def)

lemma calls_issue [simp]: "calls (issue c w) = calls w @ [c]"
  by (simp add: issue_def)

lemma status_queries_poll_once [simp]:
  "status_queries (poll_once i a b c w) = Suc (status_queries w)"
  by (simp add: poll_once_def)

lemma slept_poll_once [simp]: "slept (poll_once i a b c w) = slept w + i"
  by (simp add: poll_once_def)

lemma calls_poll_once [simp]:
  "calls (poll_once i a b c w) = calls w @ [FlowActionStatus a b c]"
  by (simp add: poll_once_def)

lemma status_queries_polls [simp]:
  "status_queries ((poll_once i a b c ^^ n) w) = status_queries w + n"
  by (induction n) simp_all

lemma slept_polls [simp]: "slept ((poll_once i a b c ^^ n) w) = slept w + n * i"
  by (induction n) simp_all

lemma calls_polls [simp]:
  "calls ((poll_once i a b c ^^ n) w) = calls w @ replicate n (FlowActionStatus a b c)"
  by (induction n) (simp_all add: replicate_append_same)

lemma poll_loop_terminal:
  "flow_status \<noteq> JStr ''ACTIVE'' \<Longrightarrow>
   poll_loop i svc fid fsc aid flow_action flow_status w = Some (Inr flow_action, w)"
  by (subst poll_loop.simps) simp

lemma poll_loop_step:
  assumes "flow_action_status svc (status_queries w) fid fsc aid = Inr fa"
    and "getitem fa ''status'' = Inr st"
  shows "poll_loop i svc fid fsc aid fa0 (JStr ''ACTIVE'') w =
         poll_loop i svc fid fsc aid fa st (poll_once i fid fsc aid w)"
  using assms by (subst poll_loop.simps) (simp add: poll_once_def Let_def)

lemma poll_loop_run:
  assumes "\<forall>k<n. running (flow_action_status svc (status_queries w + k) fid fsc aid)"
    and "flow_action_status svc (status_queries w + n) fid fsc aid = Inr fa"
    and "getitem fa ''status'' = Inr st"
    and "st \<noteq> JStr ''ACTIVE''"
  shows "poll_loop i svc fid fsc aid fa0 (JStr ''ACTIVE'') w =
         Some (Inr fa, (poll_once i fid fsc aid ^^ Suc n) w)"
  using assms
proof (induction n arbitrary: w fa0)
  case 0
  then show ?case
    by (simp add: poll_loop_step poll_loop_terminal)
next
  case (Suc n)
  from Suc.prems(1) have "running (flow_action_status svc (status_queries w) fid fsc aid)"
    by (metis add.right_neutral zero_less_Suc)
  then obtain fa1 where first: "flow_action_status svc (status_queries w) fid fsc aid = Inr fa1"
    and active: "getitem fa1 ''status'' = Inr (JStr ''ACTIVE'')"
    by (auto simp: running_def split: sum.splits)
  let ?w = "poll_once i fid fsc aid w"
  have rest: "\<forall>k<n. running (flow_action_status svc (status_queries ?w + k) fid fsc aid)"
    using Suc.prems(1) by auto
  have last: "flow_action_status svc (status_queries ?w + n) fid fsc aid = Inr fa"
    using Suc.prems(2) by simp
  have "poll_loop i svc fid fsc aid fa0 (JStr ''ACTIVE'') w =
        poll_loop i svc fid fsc aid fa1 (JStr ''ACTIVE'') ?w"
    by (rule poll_loop_step [OF first active])
  also have "\<dots> = Some (Inr fa, (poll_once i fid fsc aid ^^ Suc n) ?w)"
    by (rule Suc.IH [OF rest last Suc.prems(3) Suc.prems(4)])
  finally show ?case
    by (simp add: funpow_swap1)
qed

lemma status_queries_world0 [simp]: "status_queries world0 = 0"
  by (simp add: status_queries_def world0_def)

lemma slept_world0 [simp]: "slept world0 = 0"
  by (simp add: world0_def)

lemma poll_loop_counts:
  assumes "reports_running_then_terminal svc fid fsc aid (status_queries w) N"
  shows "\<exists>fa. poll_loop i svc fid fsc aid fa0 (JStr ''ACTIVE'') w =
           Some (Inr fa, (poll_once i fid fsc aid ^^ Suc N) w)"
proof -
  from assms obtain fa st
    where "flow_action_status svc (status_queries w + N) fid fsc aid = Inr fa"
      and "getitem fa ''status'' = Inr st" and "st \<noteq> JStr ''ACTIVE''"
    by (auto simp: reports_running_then_terminal_def terminal_def split: sum.splits)
  moreover from assms
  have "\<forall>k<N. running (flow_action_status svc (status_queries w + k) fid fsc aid)"
    by (simp add: reports_running_then_terminal_def)
  ultimately show ?thesis
    using poll_loop_run by blast
qed

lemma start_and_poll_counts:
  assumes "started_active svc fid fsc fin label aid"
    and "reports_running_then_terminal svc fid fsc aid (status_queries w) N"
  shows "\<exists>fa w'. start_and_poll i svc fid fsc fin label w = Some (Inr fa, w') \<and>
           status_queries w' = status_queries w + (N + 1) \<and>
           slept w' = slept w + (N + 1) * i"
proof -
  let ?w = "issue (RunFlow fid fsc fin label) w"
  from assms(1) obtain fa0 where start: "run_flow svc fid fsc fin label = Inr fa0"
    "getitem fa0 ''action_id'' = Inr aid" "getitem fa0 ''status'' = Inr (JStr ''ACTIVE'')"
    by (auto simp: started_active_def split: sum.splits)
  from assms(2) have "reports_running_then_terminal svc fid fsc aid (status_queries ?w) N"
    by simp
  from poll_loop_counts [OF this]
  obtain fa where "poll_loop i svc fid fsc aid fa0 (JStr ''ACTIVE'') ?w =
      Some (Inr fa, (poll_once i fid fsc aid ^^ Suc N) ?w)"
    by blast
  with start have "start_and_poll i svc fid fsc fin label w =
      Some (Inr fa, (poll_once i fid fsc aid ^^ Suc N) ?w)"
    by (simp add: start_and_poll_def Let_def)
  moreover have "status_queries ((poll_once i fid fsc aid ^^ Suc N) ?w) = status_queries w + (N + 1)"
    by simp
  moreover have "slept ((poll_once i fid fsc aid ^^ Suc N) ?w) = slept w + (N + 1) * i"
    by simp
  ultimately show ?thesis by blast
qed

lemma mock_reports:
  "reports_running_then_terminal (mock_services n ''SUCCEEDED'') fid fsc aid 0 n"
  by (simp add: reports_running_then_terminal_def mock_services_def running_def terminal_def
      payload_def)

lemma mock_started:
  "started_active (mock_services n final) fid fsc fin label (JStr ''run-1'')"
  by (simp add: started_active_def mock_services_def payload_def)

lemma run_mock:
  "start_and_poll i (mock_services n ''SUCCEEDED'') fid fsc fin label world0 =
     Some (Inr (payload ''SUCCEEDED''),
       (poll_once i fid fsc (JStr ''run-1'') ^^ Suc n) (issue (RunFlow fid fsc fin label) world0))"
proof -
  let ?svc = "mock_services n ''SUCCEEDED''" and ?w = "issue (RunFlow fid fsc fin label) world0"
  have "poll_loop i ?svc fid fsc (JStr ''run-1'') (payload ''ACTIVE'') (JStr ''ACTIVE'') ?w =
        Some (Inr (payload ''SUCCEEDED''), (poll_once i fid fsc (JStr ''run-1'') ^^ Suc n) ?w)"
    by (rule poll_loop_run [where st = "JStr ''SUCCEEDED''"])
      (simp_all add: mock_services_def running_def payload_def)
  then show ?thesis
    by (simp add: start_and_poll_def Let_def mock_services_def payload_def)
qed

lemma poll_loop_sleeps_per_query:
  assumes "poll_loop i svc fid fsc aid fa0 st0 w = Some y"
  shows "slept (snd y) + status_queries w * i = slept w + status_queries (snd y) * i"
  using assms
proof (induction rule: poll_loop.raw_induct [rotated, consumes 1])
  case (1 poll_loop i svc fid fsc aid fa0 st0 w y)
  show ?case
  proof (cases "st0 = JStr ''ACTIVE''")
    case False
    with 1(2) show ?thesis by auto
  next
    case act: True
    let ?w = "poll_once i fid fsc aid w"
    show ?thesis
    proof (cases "flow_action_status svc (status_queries w) fid fsc aid")
      case (Inl e)
      with 1(2) act have "y = (Inl e, ?w)"
        by (simp add: Let_def poll_once_def)
      then show ?thesis by simp
    next
      case (Inr fa1)
      show ?thesis
      proof (cases "getitem fa1 ''status''")
        case (Inl e)
        with 1(2) act Inr have "y = (Inl e, ?w)"
          by (simp add: Let_def poll_once_def)
        then show ?thesis by simp
      next
        case st: (Inr st)
        with 1(2) act Inr have "poll_loop i svc fid fsc aid fa1 st ?w = Some y"
          by (simp add: Let_def poll_once_def)
        from 1(1) [OF this] show ?thesis by simp
      qed
    qed
  qed
qed

subsection \<open>Number of queries and time slept\<close>

text \<open>
  Claim C1 says that when the status service reports a running status exactly \<open>N\<close> times
  and then a terminal one, the loop ends after \<open>N + 1\<close> status queries and \<open>N\<close> sleeps.
  The loop sleeps before every query, the first one included: in every run that returns,
  the time slept is the number of status queries times the interval
  (\<open>poll_loop_sleeps_per_query\<close>), so that the two counts of the claim cannot both hold
  when the interval is positive. For the scenario of the specification (two running
  reports, then \<^verbatim>\<open>SUCCEEDED\<close>, interval 5) the main notebook issues three queries and
  sleeps three times, 15 seconds and not 10.
\<close>

theorem spec_sleep_count_counterexample:
  "reports_running_then_terminal (mock_services 2 ''SUCCEEDED'') JNull JNull (JStr ''run-1'')
     (status_queries world0) 2 \<and>
   run_the_flow mock_lib (mock_services 2 ''SUCCEEDED'')
     (JObj [(''preferred_username'', JStr ''u'')]) JNull JNull JNull world0 =
     Some (Inr (payload ''SUCCEEDED''),
       \<lparr>calls = [RunFlow JNull JNull JNull (Some ''Tutorial run for u''),
                 FlowActionStatus JNull JNull (JStr ''run-1''),
                 FlowActionStatus JNull JNull (JStr ''run-1''),
                 FlowActionStatus JNull JNull (JStr ''run-1'')],
        slept = 15\<rparr>) \<and>
   (15::nat) \<noteq> 2 * 5"
proof -
  have "(poll_once 5 JNull JNull (JStr ''run-1'') ^^ Suc 2)
          (issue (RunFlow JNull JNull JNull (Some ''Tutorial run for u'')) world0) =
        \<lparr>calls = [RunFlow JNull JNull JNull (Some ''Tutorial run for u''),
                 FlowActionStatus JNull JNull (JStr ''run-1''),
                 FlowActionStatus JNull JNull (JStr ''run-1''),
                 FlowActionStatus JNull JNull (JStr ''run-1'')],
         slept = 15\<rparr>"
    by (simp add: numeral_2_eq_2 poll_once_def issue_def sleep_def world0_def)
  then show ?thesis
    by (simp add: mock_reports run_the_flow_def run_mock py_format_def)
qed

text \<open>
  Claim C1, as amended: for every \<open>N\<close>, if the run starts \<^verbatim>\<open>ACTIVE\<close> and the status
  service reports a running status exactly \<open>N\<close> times and then a terminal one, the cell
  leaves the loop, the number of status queries it issued is \<open>N + 1\<close> and the time it slept
  is \<open>(N + 1)\<close> times the interval, 5 seconds in the main notebook and 2 in the variant.
\<close>

theorem run_the_flow_poll_counts:
  assumes "reports_running_then_terminal svc fid fsc aid (status_queries w) N"
  shows "(getitem pid ''preferred_username'' = Inr u \<and>
          started_active svc fid fsc fin (Some (''Tutorial run for '' @ py_format lib u)) aid \<longrightarrow>
          (\<exists>fa w'. run_the_flow lib svc pid fid fsc fin w = Some (Inr fa, w') \<and>
             status_queries w' = status_queries w + (N + 1) \<and>
             slept w' = slept w + (N + 1) * 5)) \<and>
         (started_active svc fid fsc fin None aid \<longrightarrow>
          (\<exists>fa w'. run_the_flow_variant svc fid fsc fin w = Some (Inr fa, w') \<and>
             status_queries w' = status_queries w + (N + 1) \<and>
             slept w' = slept w + (N + 1) * 2))"
  using start_and_poll_counts [OF _ assms, of fin "Some (''Tutorial run for '' @ py_format lib u)" 5]
    start_and_poll_counts [OF _ assms, of fin None 2]
  by (simp add: run_the_flow_def run_the_flow_variant_def)

theorem run_the_flow_poll_counts_witness:
  "reports_running_then_terminal (mock_services 2 ''SUCCEEDED'') JNull JNull (JStr ''run-1'')
     (status_queries world0) 2 \<and>
   (\<exists>fa w'. run_the_flow mock_lib (mock_services 2 ''SUCCEEDED'')
        (JObj [(''preferred_username'', JStr ''u'')]) JNull JNull JNull world0 = Some (Inr fa, w') \<and>
      status_queries w' = 3 \<and> slept w' = 15) \<and>
   (\<exists>fa w'. run_the_flow_variant (mock_services 2 ''SUCCEEDED'') JNull JNull JNull world0 =
        Some (Inr fa, w') \<and>
      status_queries w' = 3 \<and> slept w' = 6)"
proof -
  have h: "reports_running_then_terminal (mock_services 2 ''SUCCEEDED'') JNull JNull
      (JStr ''run-1'') (status_queries world0) 2"
    by (simp add: mock_reports)
  show ?thesis
    using h run_the_flow_poll_counts [OF h, of "JObj [(''preferred_username'', JStr ''u'')]"
        "JStr ''u''" JNull mock_lib]
    by (simp add: mock_started)
qed

lemma poll_loop_returned:
  assumes "poll_loop i svc fid fsc aid fa0 st0 w = Some y"
  shows "(st0 \<noteq> JStr ''ACTIVE'' \<longrightarrow> y = (Inr fa0, w)) \<and>
         status_queries w \<le> status_queries (snd y) \<and>
         (\<forall>k. status_queries w \<le> k \<and> Suc k < status_queries (snd y) \<longrightarrow>
              running (flow_action_status svc k fid fsc aid))"
  using assms
proof (induction rule: poll_loop.raw_induct [rotated, consumes 1])
  case (1 poll_loop i svc fid fsc aid fa0 st0 w y)
  show ?case
  proof (cases "st0 = JStr ''ACTIVE''")
    case False
    with 1(2) show ?thesis by auto
  next
    case act: True
    let ?w = "poll_once i fid fsc aid w"
    show ?thesis
    proof (cases "flow_action_status svc (status_queries w) fid fsc aid")
      case (Inl e)
      with 1(2) act have "y = (Inl e, ?w)"
        by (simp add: Let_def poll_once_def)
      with act show ?thesis by auto
    next
      case (Inr fa1)
      show ?thesis
      proof (cases "getitem fa1 ''status''")
        case (Inl e)
        with 1(2) act Inr have "y = (Inl e, ?w)"
          by (simp add: Let_def poll_once_def)
        with act show ?thesis by auto
      next
        case st: (Inr st)
        with 1(2) act Inr have rec: "poll_loop i svc fid fsc aid fa1 st ?w = Some y"
          by (simp add: Let_def poll_once_def)
        note ih = 1(1) [OF rec]
        show ?thesis
        proof (cases "st = JStr ''ACTIVE''")
          case True
          then have "running (flow_action_status svc (status_queries w) fid fsc aid)"
            using Inr st by (simp add: running_def)
          then have "running (flow_action_status svc k fid fsc aid)"
            if "status_queries w \<le> k" "Suc k < status_queries (snd y)" for k
          proof (cases "k = status_queries w")
            case False
            with that have "Suc (status_queries w) \<le> k" by simp
            with ih that show ?thesis by simp
          qed simp
          with ih act show ?thesis
            by simp
        next
          case False
          with ih have "y = (Inr fa1, ?w)" by simp
          with act show ?thesis by auto
        qed
      qed
    qed
  qed
qed

lemma poll_mock:
  "poll_loop i (mock_services n ''SUCCEEDED'') fid fsc aid fa0 (JStr ''ACTIVE'') world0 =
     Some (Inr (payload ''SUCCEEDED''), (poll_once i fid fsc aid ^^ Suc n) world0)"
  by (rule poll_loop_run [where st = "JStr ''SUCCEEDED''"])
    (simp_all add: mock_services_def running_def payload_def)

lemma poll_loop_stop_once:
  assumes "\<not> running (flow_action_status svc (status_queries w) fid fsc aid)"
  shows "\<exists>r. poll_loop i svc fid fsc aid fa0 (JStr ''ACTIVE'') w =
           Some (r, poll_once i fid fsc aid w)"
proof (cases "flow_action_status svc (status_queries w) fid fsc aid")
  case (Inl e)
  then show ?thesis
    by (subst poll_loop.simps) (simp add: poll_once_def Let_def)
next
  case (Inr fa)
  show ?thesis
  proof (cases "getitem fa ''status''")
    case (Inl e)
    with Inr show ?thesis
      by (subst poll_loop.simps) (simp add: poll_once_def Let_def)
  next
    case st: (Inr st)
    with Inr assms have "st \<noteq> JStr ''ACTIVE''"
      by (auto simp: running_def)
    with Inr st show ?thesis
      by (simp add: poll_loop_step poll_loop_terminal)
  qed
qed

lemma poll_loop_stops:
  assumes "\<forall>k<n. running (flow_action_status svc (status_queries w + k) fid fsc aid)"
    and "\<not> running (flow_action_status svc (status_queries w + n) fid fsc aid)"
  shows "\<exists>r. poll_loop i svc fid fsc aid fa0 (JStr ''ACTIVE'') w =
           Some (r, (poll_once i fid fsc aid ^^ Suc n) w)"
  using assms
proof (induction n arbitrary: w fa0)
  case 0
  then show ?case
    using poll_loop_stop_once [of svc w fid fsc aid i fa0] by simp
next
  case (Suc n)
  from Suc.prems(1) have "running (flow_action_status svc (status_queries w) fid fsc aid)"
    by (metis add.right_neutral zero_less_Suc)
  then obtain fa1 where first: "flow_action_status svc (status_queries w) fid fsc aid = Inr fa1"
    and active: "getitem fa1 ''status'' = Inr (JStr ''ACTIVE'')"
    by (auto simp: running_def split: sum.splits)
  let ?w = "poll_once i fid fsc aid w"
  have rest: "\<forall>k<n. running (flow_action_status svc (status_queries ?w + k) fid fsc aid)"
    using Suc.prems(1) by auto
  have last: "\<not> running (flow_action_status svc (status_queries ?w + n) fid fsc aid)"
    using Suc.prems(2) by simp
  from Suc.IH [OF rest last, of fa1] obtain r
    where "poll_loop i svc fid fsc aid fa1 (JStr ''ACTIVE'') ?w =
      Some (r, (poll_once i fid fsc aid ^^ Suc n) ?w)"
    by blast
  then have "poll_loop i svc fid fsc aid fa0 (JStr ''ACTIVE'') w =
      Some (r, (poll_once i fid fsc aid ^^ Suc (Suc n)) w)"
    by (simp add: poll_loop_step [OF first active] funpow_swap1)
  then show ?case by blast
qed

lemma polls_world:
  "(poll_once i fid fsc aid ^^ m) w =
      w\<lparr>slept := slept w + m * i,
        calls := calls w @ replicate m (FlowActionStatus fid fsc aid)\<rparr>"
  by (rule world.equality) simp_all

subsection \<open>Nothing is asked after a terminal status\<close>

text \<open>
  Claim C2: for every sequence of answers of the status service, once the loop has
  observed a status that is not running it issues no further status query and does not
  go back to waiting. A loop that is entered with a status that is not running returns
  at once and leaves the world as it found it. A loop that is entered with
  \<^verbatim>\<open>ACTIVE\<close> and whose first answer that is not running is answer number \<open>n\<close>
  (counted from 0) returns after exactly \<open>n + 1\<close> polls, so that the query that
  observed it is the last call of the run, whatever the service would have answered
  later. And in every run that returns, a query that was answered with anything but a
  running status is the last query of the run.
\<close>

theorem no_query_after_terminal:
  "(st0 \<noteq> JStr ''ACTIVE'' \<longrightarrow>
      poll_loop i svc fid fsc aid fa0 st0 w = Some (Inr fa0, w)) \<and>
   ((\<forall>k<n. running (flow_action_status svc (status_queries w + k) fid fsc aid)) \<and>
    \<not> running (flow_action_status svc (status_queries w + n) fid fsc aid) \<longrightarrow>
      (\<exists>r. poll_loop i svc fid fsc aid fa0 (JStr ''ACTIVE'') w =
         Some (r, w\<lparr>slept := slept w + Suc n * i,
                     calls := calls w @ replicate (Suc n) (FlowActionStatus fid fsc aid)\<rparr>))) \<and>
   (poll_loop i svc fid fsc aid fa0 st0 w = Some (r', w') \<longrightarrow>
      (\<forall>k. status_queries w \<le> k \<and> k < status_queries w' \<and>
           \<not> running (flow_action_status svc k fid fsc aid) \<longrightarrow>
           status_queries w' = Suc k))"
proof (intro conjI impI allI)
  assume "st0 \<noteq> JStr ''ACTIVE''"
  then show "poll_loop i svc fid fsc aid fa0 st0 w = Some (Inr fa0, w)"
    by (rule poll_loop_terminal)
next
  assume "(\<forall>k<n. running (flow_action_status svc (status_queries w + k) fid fsc aid)) \<and>
    \<not> running (flow_action_status svc (status_queries w + n) fid fsc aid)"
  then have before: "\<forall>k<n. running (flow_action_status svc (status_queries w + k) fid fsc aid)"
    and at: "\<not> running (flow_action_status svc (status_queries w + n) fid fsc aid)"
    by blast+
  from poll_loop_stops [OF before at, of i fa0]
  show "\<exists>r. poll_loop i svc fid fsc aid fa0 (JStr ''ACTIVE'') w =
         Some (r, w\<lparr>slept := slept w + Suc n * i,
                     calls := calls w @ replicate (Suc n) (FlowActionStatus fid fsc aid)\<rparr>)"
    by (simp only: polls_world)
next
  fix k
  assume run: "poll_loop i svc fid fsc aid fa0 st0 w = Some (r', w')"
    and k: "status_queries w \<le> k \<and> k < status_queries w' \<and>
           \<not> running (flow_action_status svc k fid fsc aid)"
  show "status_queries w' = Suc k"
  proof (rule ccontr)
    assume "status_queries w' \<noteq> Suc k"
    with k have "Suc k < status_queries w'" by simp
    with poll_loop_returned [OF run] k show False by auto
  qed
qed

theorem no_query_after_terminal_witness:
  "running (flow_action_status (mock_services 2 ''SUCCEEDED'') 0 JNull JNull (JStr ''run-1'')) \<and>
   running (flow_action_status (mock_services 2 ''SUCCEEDED'') 1 JNull JNull (JStr ''run-1'')) \<and>
   \<not> running (flow_action_status (mock_services 2 ''SUCCEEDED'') 2 JNull JNull (JStr ''run-1'')) \<and>
   (\<exists>r. poll_loop 5 (mock_services 2 ''SUCCEEDED'') JNull JNull (JStr ''run-1'')
        (payload ''ACTIVE'') (JStr ''ACTIVE'') world0 =
      Some (r, \<lparr>calls = [FlowActionStatus JNull JNull (JStr ''run-1''),
                          FlowActionStatus JNull JNull (JStr ''run-1''),
                          FlowActionStatus JNull JNull (JStr ''run-1'')],
                 slept = 15\<rparr>)) \<and>
   poll_loop 5 (mock_services 2 ''SUCCEEDED'') JNull JNull (JStr ''run-1'')
     (payload ''SUCCEEDED'') (JStr ''SUCCEEDED'') world0 =
     Some (Inr (payload ''SUCCEEDED''), world0) \<and>
   poll_loop 5 (mock_services 2 ''SUCCEEDED'') JNull JNull (JStr ''run-1'')
     (payload ''ACTIVE'') (JStr ''ACTIVE'') world0 =
     Some (Inr (payload ''SUCCEEDED''), (poll_once 5 JNull JNull (JStr ''run-1'') ^^ 3) world0) \<and>
   status_queries ((poll_once 5 JNull JNull (JStr ''run-1'') ^^ 3) world0) = Suc 2"
proof -
  let ?svc = "mock_services 2 ''SUCCEEDED''"
  have before: "\<forall>k<2. running (flow_action_status ?svc (status_queries world0 + k)
      JNull JNull (JStr ''run-1''))"
    by (simp add: mock_services_def running_def payload_def)
  have at: "\<not> running (flow_action_status ?svc (status_queries world0 + 2)
      JNull JNull (JStr ''run-1''))"
    by (simp add: mock_services_def running_def payload_def)
  have ne: "JStr ''SUCCEEDED'' \<noteq> JStr ''ACTIVE''"
    by simp
  note inst = no_query_after_terminal [where svc = ?svc and w = world0 and i = 5
      and fid = JNull and fsc = JNull and aid = "JStr ''run-1''"]
  have after: "world0\<lparr>slept := slept world0 + Suc 2 * 5,
        calls := calls world0 @ replicate (Suc 2) (FlowActionStatus JNull JNull (JStr ''run-1''))\<rparr> =
      \<lparr>calls = [FlowActionStatus JNull JNull (JStr ''run-1''),
                FlowActionStatus JNull JNull (JStr ''run-1''),
                FlowActionStatus JNull JNull (JStr ''run-1'')],
       slept = 15\<rparr>"
    by (simp add: world0_def numeral_2_eq_2)
  from inst [where n = 2 and ?fa0.0 = "payload ''ACTIVE''", THEN conjunct2, THEN conjunct1,
      rule_format, OF conjI [OF before at]]
  have "\<exists>r. poll_loop 5 ?svc JNull JNull (JStr ''run-1'')
        (payload ''ACTIVE'') (JStr ''ACTIVE'') world0 =
      Some (r, \<lparr>calls = [FlowActionStatus JNull JNull (JStr ''run-1''),
                          FlowActionStatus JNull JNull (JStr ''run-1''),
                          FlowActionStatus JNull JNull (JStr ''run-1'')],
                 slept = 15\<rparr>)"
    unfolding after .
  moreover
  from inst [where ?st0.0 = "JStr ''SUCCEEDED''" and ?fa0.0 = "payload ''SUCCEEDED''",
      THEN conjunct1, rule_format, OF ne]
  have "poll_loop 5 ?svc JNull JNull (JStr ''run-1'')
     (payload ''SUCCEEDED'') (JStr ''SUCCEEDED'') world0 =
     Some (Inr (payload ''SUCCEEDED''), world0)" .
  moreover
  have stop: "running (flow_action_status ?svc 0 JNull JNull (JStr ''run-1''))"
    "running (flow_action_status ?svc 1 JNull JNull (JStr ''run-1''))"
    "\<not> running (flow_action_status ?svc 2 JNull JNull (JStr ''run-1''))"
    by (simp_all add: mock_services_def running_def payload_def)
  moreover
  have run: "poll_loop 5 ?svc JNull JNull (JStr ''run-1'') (payload ''ACTIVE'')
      (JStr ''ACTIVE'') world0 =
      Some (Inr (payload ''SUCCEEDED''), (poll_once 5 JNull JNull (JStr ''run-1'') ^^ 3) world0)"
    using poll_mock [of 5 2] by (simp add: numeral_3_eq_3 numeral_2_eq_2)
  moreover
  have "status_queries world0 \<le> 2 \<and>
      2 < status_queries ((poll_once 5 JNull JNull (JStr ''run-1'') ^^ 3) world0) \<and>
      \<not> running (flow_action_status ?svc 2 JNull JNull (JStr ''run-1''))"
    using stop(3) by simp
  from inst [where ?st0.0 = "JStr ''ACTIVE''" and ?fa0.0 = "payload ''ACTIVE''",
      THEN conjunct2, THEN conjunct2, rule_format, OF run this]
  have "status_queries ((poll_once 5 JNull JNull (JStr ''run-1'') ^^ 3) world0) = Suc 2" .
  ultimately show ?thesis by blast
qed

lemma poll_loop_exception_origin:
  assumes "poll_loop i svc fid fsc aid fa0 st0 w = Some y"
  shows "fst y = Inl e \<longrightarrow>
         (\<exists>k. query_raises (flow_action_status svc k fid fsc aid) e)"
  using assms
proof (induction rule: poll_loop.raw_induct [rotated, consumes 1])
  case (1 poll_loop i svc fid fsc aid fa0 st0 w y)
  show ?case
  proof (cases "st0 = JStr ''ACTIVE''")
    case False
    with 1(2) show ?thesis by auto
  next
    case act: True
    let ?w = "poll_once i fid fsc aid w"
    show ?thesis
    proof (cases "flow_action_status svc (status_queries w) fid fsc aid")
      case (Inl e')
      with 1(2) act have "y = (Inl e', ?w)"
        by (simp add: Let_def poll_once_def)
      with Inl have "fst y = Inl e \<longrightarrow>
          query_raises (flow_action_status svc (status_queries w) fid fsc aid) e"
        by (simp add: query_raises_def)
      then show ?thesis by blast
    next
      case (Inr fa1)
      show ?thesis
      proof (cases "getitem fa1 ''status''")
        case (Inl e')
        with 1(2) act Inr have "y = (Inl e', ?w)"
          by (simp add: Let_def poll_once_def)
        with Inl Inr have "fst y = Inl e \<longrightarrow>
            query_raises (flow_action_status svc (status_queries w) fid fsc aid) e"
          by (simp add: query_raises_def)
        then show ?thesis by blast
      next
        case st: (Inr st)
        with 1(2) act Inr have "poll_loop i svc fid fsc aid fa1 st ?w = Some y"
          by (simp add: Let_def poll_once_def)
        from 1(1) [OF this] show ?thesis .
      qed
    qed
  qed
qed

subsection \<open>The final payload is returned, whatever the terminal status\<close>

text \<open>
  Claim C3: the loop returns the last payload on every terminal status. A payload whose
  status is \<^verbatim>\<open>FAILED\<close> or \<^verbatim>\<open>CANCELED\<close> (or any other value that is not the string
  \<^verbatim>\<open>ACTIVE\<close>) is returned to the caller as a value, as the answer of a status query
  and as the status the loop is entered with. The loop raises nothing of its own: an
  exception that ends it was raised by a status query, or by the subscript of a payload
  that has no status.
\<close>

theorem terminal_payload_returned:
  "((\<forall>k<N. running (flow_action_status svc (status_queries w + k) fid fsc aid)) \<and>
    flow_action_status svc (status_queries w + N) fid fsc aid = Inr fa \<and>
    getitem fa ''status'' = Inr st \<and> st \<noteq> JStr ''ACTIVE'' \<longrightarrow>
      (\<exists>w'. poll_loop i svc fid fsc aid fa0 (JStr ''ACTIVE'') w = Some (Inr fa, w'))) \<and>
   (st \<noteq> JStr ''ACTIVE'' \<longrightarrow> poll_loop i svc fid fsc aid fa st w = Some (Inr fa, w)) \<and>
   (poll_loop i svc fid fsc aid fa0 st0 w = Some (Inl e, w') \<longrightarrow>
      (\<exists>k. query_raises (flow_action_status svc k fid fsc aid) e))"
proof (intro conjI impI)
  assume "(\<forall>k<N. running (flow_action_status svc (status_queries w + k) fid fsc aid)) \<and>
    flow_action_status svc (status_queries w + N) fid fsc aid = Inr fa \<and>
    getitem fa ''status'' = Inr st \<and> st \<noteq> JStr ''ACTIVE''"
  then have "poll_loop i svc fid fsc aid fa0 (JStr ''ACTIVE'') w =
      Some (Inr fa, (poll_once i fid fsc aid ^^ Suc N) w)"
    by (intro poll_loop_run) blast+
  then show "\<exists>w'. poll_loop i svc fid fsc aid fa0 (JStr ''ACTIVE'') w = Some (Inr fa, w')"
    by blast
next
  assume "st \<noteq> JStr ''ACTIVE''"
  then show "poll_loop i svc fid fsc aid fa st w = Some (Inr fa, w)"
    by (rule poll_loop_terminal)
next
  assume "poll_loop i svc fid fsc aid fa0 st0 w = Some (Inl e, w')"
  from poll_loop_exception_origin [OF this, of e]
  show "\<exists>k. query_raises (flow_action_status svc k fid fsc aid) e"
    by simp
qed

theorem terminal_payload_returned_witness:
  "(\<exists>w'. poll_loop 5 (mock_services 1 ''FAILED'') JNull JNull (JStr ''run-1'') (payload ''ACTIVE'')
       (JStr ''ACTIVE'') world0 = Some (Inr (payload ''FAILED''), w')) \<and>
   poll_loop 2 (mock_services 0 ''ACTIVE'') JNull JNull (JStr ''run-1'') (payload ''CANCELED'')
       (JStr ''CANCELED'') world0 = Some (Inr (payload ''CANCELED''), world0) \<and>
   poll_loop 5 failing_services JNull JNull (JStr ''run-1'') (payload ''ACTIVE'')
       (JStr ''ACTIVE'') world0 =
     Some (Inl (ServiceError ''unreachable''),
           \<lparr>calls = [FlowActionStatus JNull JNull (JStr ''run-1'')], slept = 5\<rparr>) \<and>
   (\<exists>k. query_raises (flow_action_status failing_services k JNull JNull (JStr ''run-1''))
          (ServiceError ''unreachable''))"
proof -
  have "(\<forall>k<1. running (flow_action_status (mock_services 1 ''FAILED'')
            (status_queries world0 + k) JNull JNull (JStr ''run-1''))) \<and>
      flow_action_status (mock_services 1 ''FAILED'') (status_queries world0 + 1) JNull JNull
        (JStr ''run-1'') = Inr (payload ''FAILED'') \<and>
      getitem (payload ''FAILED'') ''status'' = Inr (JStr ''FAILED'') \<and>
      JStr ''FAILED'' \<noteq> JStr ''ACTIVE''"
    by (simp add: mock_services_def running_def payload_def)
  from terminal_payload_returned [THEN conjunct1, rule_format, OF this]
  have "\<exists>w'. poll_loop 5 (mock_services 1 ''FAILED'') JNull JNull (JStr ''run-1'')
      (payload ''ACTIVE'') (JStr ''ACTIVE'') world0 = Some (Inr (payload ''FAILED''), w')" .
  moreover
  have "JStr ''CANCELED'' \<noteq> JStr ''ACTIVE''"
    by simp
  from terminal_payload_returned [THEN conjunct2, THEN conjunct1, rule_format, OF this]
  have "poll_loop 2 (mock_services 0 ''ACTIVE'') JNull JNull (JStr ''run-1'')
      (payload ''CANCELED'') (JStr ''CANCELED'') world0 = Some (Inr (payload ''CANCELED''), world0)" .
  moreover
  have raised: "poll_loop 5 failing_services JNull JNull (JStr ''run-1'') (payload ''ACTIVE'')
       (JStr ''ACTIVE'') world0 =
     Some (Inl (ServiceError ''unreachable''),
           \<lparr>calls = [FlowActionStatus JNull JNull (JStr ''run-1'')], slept = 5\<rparr>)"
    by (subst poll_loop.simps)
      (simp add: failing_services_def Let_def issue_def sleep_def world0_def)
  moreover
  from terminal_payload_returned [THEN conjunct2, THEN conjunct2, rule_format, OF raised]
  have "\<exists>k. query_raises (flow_action_status failing_services k JNull JNull (JStr ''run-1''))
      (ServiceError ''unreachable'')" .
  ultimately show ?thesis by blast
qed

lemma poll_loop_returns_after_non_running:
  assumes "poll_loop i svc fid fsc aid fa0 st0 w = Some y"
  shows "st0 = JStr ''ACTIVE'' \<longrightarrow>
         (\<exists>k. status_queries w \<le> k \<and> \<not> running (flow_action_status svc k fid fsc aid))"
  using assms
proof (induction rule: poll_loop.raw_induct [rotated, consumes 1])
  case (1 poll_loop i svc fid fsc aid fa0 st0 w y)
  show ?case
  proof
    assume act: "st0 = JStr ''ACTIVE''"
    show "\<exists>k. status_queries w \<le> k \<and> \<not> running (flow_action_status svc k fid fsc aid)"
    proof (cases "running (flow_action_status svc (status_queries w) fid fsc aid)")
      case False
      then show ?thesis by blast
    next
      case True
      then obtain fa1 where first: "flow_action_status svc (status_queries w) fid fsc aid = Inr fa1"
        and active: "getitem fa1 ''status'' = Inr (JStr ''ACTIVE'')"
        by (auto simp: running_def split: sum.splits)
      from 1(2) act first active
      have "poll_loop i svc fid fsc aid fa1 (JStr ''ACTIVE'') (poll_once i fid fsc aid w) = Some y"
        by (simp add: Let_def poll_once_def)
      from 1(1) [OF this] obtain k where "Suc (status_queries w) \<le> k"
        "\<not> running (flow_action_status svc k fid fsc aid)"
        by auto
      then show ?thesis
        using Suc_leD by blast
    qed
  qed
qed

subsection \<open>No timeout\<close>

text \<open>
  Claim C4: the loop has no timeout and no bound on the number of attempts. When every
  answer of the status service is a running status, the loop that was entered with the
  status \<^verbatim>\<open>ACTIVE\<close> never returns, and neither does the cell whose run started
  \<^verbatim>\<open>ACTIVE\<close>, whatever the interval.
\<close>

theorem poll_loop_never_returns:
  assumes "\<forall>k. running (flow_action_status svc k fid fsc aid)"
  shows "poll_loop i svc fid fsc aid fa0 (JStr ''ACTIVE'') w = None \<and>
         (started_active svc fid fsc fin label aid \<longrightarrow>
            start_and_poll i svc fid fsc fin label w = None)"
proof -
  have never: "poll_loop i svc fid fsc aid fa (JStr ''ACTIVE'') v = None" for fa v
  proof (cases "poll_loop i svc fid fsc aid fa (JStr ''ACTIVE'') v")
    case (Some y)
    from poll_loop_returns_after_non_running [OF this] assms show ?thesis
      by simp
  qed simp
  have "start_and_poll i svc fid fsc fin label w = None"
    if "started_active svc fid fsc fin label aid"
  proof -
    from that obtain fa where "run_flow svc fid fsc fin label = Inr fa"
      "getitem fa ''action_id'' = Inr aid" "getitem fa ''status'' = Inr (JStr ''ACTIVE'')"
      by (auto simp: started_active_def split: sum.splits)
    then show ?thesis
      by (simp add: start_and_poll_def Let_def never)
  qed
  with never show ?thesis by blast
qed

theorem poll_loop_never_returns_witness:
  "(\<forall>k. running (flow_action_status (mock_services 0 ''ACTIVE'') k JNull JNull (JStr ''run-1''))) \<and>
   poll_loop 5 (mock_services 0 ''ACTIVE'') JNull JNull (JStr ''run-1'') (payload ''ACTIVE'')
     (JStr ''ACTIVE'') world0 = None \<and>
   run_the_flow_variant (mock_services 0 ''ACTIVE'') JNull JNull JNull world0 = None"
proof -
  have h: "\<forall>k. running (flow_action_status (mock_services 0 ''ACTIVE'') k JNull JNull
      (JStr ''run-1''))"
    by (simp add: mock_services_def running_def payload_def)
  have "poll_loop 5 (mock_services 0 ''ACTIVE'') JNull JNull (JStr ''run-1'') (payload ''ACTIVE'')
     (JStr ''ACTIVE'') world0 = None"
    using poll_loop_never_returns [OF h] by blast
  moreover
  have "run_the_flow_variant (mock_services 0 ''ACTIVE'') JNull JNull JNull world0 = None"
    using poll_loop_never_returns [OF h, of 2 "payload ''ACTIVE''" world0 JNull None]
    by (simp add: run_the_flow_variant_def mock_started)
  ultimately show ?thesis using h by blast
qed

subsection \<open>Only the string ACTIVE keeps the loop going\<close>

text \<open>
  Claim C9: the loop tells statuses apart by equality with the string \<^verbatim>\<open>ACTIVE\<close> and
  nothing else. Any other status (\<^verbatim>\<open>SUCCEEDED\<close>, \<^verbatim>\<open>FAILED\<close>, \<^verbatim>\<open>CANCELED\<close>, a
  status the service invented, a misspelling, a value that is not a string) ends it. When
  \<^verbatim>\<open>run_flow\<close> answers with such a status the cell issues no status query and does not
  sleep: the only call in the world is \<^verbatim>\<open>run_flow\<close> itself. When a status query is
  answered with such a status, the loop returns after that query.
\<close>

theorem only_active_continues:
  assumes "st \<noteq> JStr ''ACTIVE''"
  shows "(run_flow svc fid fsc fin label = Inr fa0 \<and> getitem fa0 ''action_id'' = Inr aid \<and>
          getitem fa0 ''status'' = Inr st \<longrightarrow>
            start_and_poll i svc fid fsc fin label w =
              Some (Inr fa0, w\<lparr>calls := calls w @ [RunFlow fid fsc fin label]\<rparr>)) \<and>
         (flow_action_status svc (status_queries w) fid fsc aid = Inr fa \<and>
          getitem fa ''status'' = Inr st \<longrightarrow>
            poll_loop i svc fid fsc aid fa0 (JStr ''ACTIVE'') w =
              Some (Inr fa, w\<lparr>slept := slept w + i,
                               calls := calls w @ [FlowActionStatus fid fsc aid]\<rparr>))"
proof -
  have "start_and_poll i svc fid fsc fin label w =
          Some (Inr fa0, w\<lparr>calls := calls w @ [RunFlow fid fsc fin label]\<rparr>)"
    if "run_flow svc fid fsc fin label = Inr fa0" "getitem fa0 ''action_id'' = Inr aid"
      "getitem fa0 ''status'' = Inr st"
    using that assms by (simp add: start_and_poll_def Let_def poll_loop_terminal issue_def)
  moreover
  have "poll_loop i svc fid fsc aid fa0 (JStr ''ACTIVE'') w =
          Some (Inr fa, w\<lparr>slept := slept w + i,
                           calls := calls w @ [FlowActionStatus fid fsc aid]\<rparr>)"
    if "flow_action_status svc (status_queries w) fid fsc aid = Inr fa"
      "getitem fa ''status'' = Inr st"
    using that assms
    by (simp add: poll_loop_step poll_loop_terminal poll_once_def issue_def sleep_def)
  ultimately show ?thesis by blast
qed

theorem only_active_continues_witness:
  "JStr ''active'' \<noteq> JStr ''ACTIVE'' \<and>
   start_and_poll 5
     \<lparr>run_flow = (\<lambda>a b c l. Inr (JObj [(''action_id'', JStr ''run-1''), (''status'', JStr ''active'')])),
      flow_action_status = (\<lambda>k a b c. Inl (ServiceError ''unreachable''))\<rparr>
     JNull JNull JNull None world0 =
     Some (Inr (JObj [(''action_id'', JStr ''run-1''), (''status'', JStr ''active'')]),
           \<lparr>calls = [RunFlow JNull JNull JNull None], slept = 0\<rparr>) \<and>
   poll_loop 5 (mock_services 0 ''active'') JNull JNull (JStr ''run-1'') (payload ''ACTIVE'')
     (JStr ''ACTIVE'') world0 =
     Some (Inr (payload ''active''),
           \<lparr>calls = [FlowActionStatus JNull JNull (JStr ''run-1'')], slept = 5\<rparr>)"
proof -
  have ne: "JStr ''active'' \<noteq> JStr ''ACTIVE''"
    by simp
  let ?svc = "\<lparr>run_flow = (\<lambda>a b c l. Inr (JObj [(''action_id'', JStr ''run-1''),
      (''status'', JStr ''active'')])),
      flow_action_status = (\<lambda>k a b c. Inl (ServiceError ''unreachable''))\<rparr>"
  from only_active_continues [OF ne, where svc = ?svc and fid = JNull and fsc = JNull
      and fin = JNull and label = None and aid = "JStr ''run-1''" and i = 5 and w = world0
      and ?fa0.0 = "JObj [(''action_id'', JStr ''run-1''), (''status'', JStr ''active'')]"]
  have "start_and_poll 5 ?svc JNull JNull JNull None world0 =
     Some (Inr (JObj [(''action_id'', JStr ''run-1''), (''status'', JStr ''active'')]),
           \<lparr>calls = [RunFlow JNull JNull JNull None], slept = 0\<rparr>)"
    by (simp add: world0_def)
  moreover
  from only_active_continues [OF ne, where svc = "mock_services 0 ''active''" and fid = JNull
      and fsc = JNull and aid = "JStr ''run-1''" and i = 5 and w = world0
      and fa = "payload ''active''" and ?fa0.0 = "payload ''ACTIVE''"]
  have "poll_loop 5 (mock_services 0 ''active'') JNull JNull (JStr ''run-1'') (payload ''ACTIVE'')
     (JStr ''ACTIVE'') world0 =
     Some (Inr (payload ''active''),
           \<lparr>calls = [FlowActionStatus JNull JNull (JStr ''run-1'')], slept = 5\<rparr>)"
    by (simp add: mock_services_def payload_def world0_def)
  ultimately show ?thesis using ne by blast
qed

section \<open>Properties of the final payload, the definition and the input\<close>

subsection \<open>The access rule id\<close>

text \<open>
  Claim C5: reading the access rule id out of a final payload fails with a
  \<^verbatim>\<open>KeyError\<close> on the step name when the output holds no step \<^verbatim>\<open>SetPermission\<close>
  (the run did not reach it), fails with a \<^verbatim>\<open>KeyError\<close> on the field when the result
  bag of the step holds no \<^verbatim>\<open>access_id\<close>, and returns exactly the stored value when
  both are there.
\<close>

theorem access_rule_id_lookup:
  assumes "getpath flow_action [''details'', ''output''] = Inr (JObj steps)"
  shows "(map_of steps ''SetPermission'' = None \<longrightarrow>
            access_rule_id flow_action = Inl (KeyError (JStr ''SetPermission''))) \<and>
         (map_of steps ''SetPermission'' = Some (JObj step) \<and>
          map_of step ''details'' = Some (JObj bag) \<longrightarrow>
            access_rule_id flow_action =
              (case map_of bag ''access_id'' of
                 None \<Rightarrow> Inl (KeyError (JStr ''access_id''))
               | Some v \<Rightarrow> Inr v))"
  using assms
  by (auto simp: access_rule_id_def split: sum.splits option.splits)

theorem access_rule_id_lookup_witness:
  "access_rule_id (result_payload [(''MoveFiles'', [(''task_id'', JStr ''t-1'')])]) =
     Inl (KeyError (JStr ''SetPermission'')) \<and>
   access_rule_id (result_payload [(''SetPermission'', [(''code'', JStr ''denied'')])]) =
     Inl (KeyError (JStr ''access_id'')) \<and>
   access_rule_id (result_payload [(''MoveFiles'', [(''task_id'', JStr ''t-1'')]),
       (''SetPermission'', [(''access_id'', JStr ''rule-42'')])]) = Inr (JStr ''rule-42'')"
proof -
  have "access_rule_id (result_payload [(''MoveFiles'', [(''task_id'', JStr ''t-1'')])]) =
     Inl (KeyError (JStr ''SetPermission''))"
    using access_rule_id_lookup [of "result_payload [(''MoveFiles'', [(''task_id'', JStr ''t-1'')])]"
        "[(''MoveFiles'', JObj [(''details'', JObj [(''task_id'', JStr ''t-1'')])])]"]
    by (simp add: result_payload_def)
  moreover
  have "access_rule_id (result_payload [(''SetPermission'', [(''code'', JStr ''denied'')])]) =
     Inl (KeyError (JStr ''access_id''))"
    using access_rule_id_lookup [of "result_payload [(''SetPermission'', [(''code'', JStr ''denied'')])]"
        "[(''SetPermission'', JObj [(''details'', JObj [(''code'', JStr ''denied'')])])]"
        "[(''details'', JObj [(''code'', JStr ''denied'')])]" "[(''code'', JStr ''denied'')]"]
    by (simp add: result_payload_def)
  moreover
  have "access_rule_id (result_payload [(''MoveFiles'', [(''task_id'', JStr ''t-1'')]),
       (''SetPermission'', [(''access_id'', JStr ''rule-42'')])]) = Inr (JStr ''rule-42'')"
    using access_rule_id_lookup [of "result_payload [(''MoveFiles'', [(''task_id'', JStr ''t-1'')]),
          (''SetPermission'', [(''access_id'', JStr ''rule-42'')])]"
        "[(''MoveFiles'', JObj [(''details'', JObj [(''task_id'', JStr ''t-1'')])]),
          (''SetPermission'', JObj [(''details'', JObj [(''access_id'', JStr ''rule-42'')])])]"
        "[(''details'', JObj [(''access_id'', JStr ''rule-42'')])]"
        "[(''access_id'', JStr ''rule-42'')]"]
    by (simp add: result_payload_def)
  ultimately show ?thesis by blast
qed

subsection \<open>The definition is structurally valid\<close>

lemma path_from_end:
  assumes "map_of sts s \<noteq> None" and "is_end (the (map_of sts s))"
  shows "path_to_end sts s q = (q = [s])"
  using assms by (auto elim: path_to_end.cases intro: path_to_end.at_end)

lemma path_from_step:
  assumes "map_of sts s \<noteq> None" and "\<not> is_end (the (map_of sts s))"
    and "getitem (the (map_of sts s)) ''Next'' = Inr (JStr t)"
    and "\<And>q. path_to_end sts t q = (q = p)"
  shows "path_to_end sts s q = (q = s # p)"
proof
  assume "path_to_end sts s q"
  then show "q = s # p"
    using assms by (cases rule: path_to_end.cases) auto
next
  assume "q = s # p"
  moreover have "path_to_end sts t p"
    using assms(4) by simp
  ultimately show "path_to_end sts s q"
    using assms(1-3) by (auto intro: path_to_end.step)
qed

text \<open>
  Claim C6: the flow definition of either notebook is structurally valid. \<^verbatim>\<open>StartAt\<close>
  names \<^verbatim>\<open>MoveFiles\<close>, which is the name of exactly one step; the \<^verbatim>\<open>Next\<close> of every
  step that is not terminal names a step of the definition; and there is exactly one path
  from the start to a terminal step, \<^verbatim>\<open>MoveFiles\<close> then \<^verbatim>\<open>SetPermission\<close>.
\<close>

theorem flow_definition_valid:
  "structurally_valid flow_definition ''MoveFiles'' [''MoveFiles'', ''SetPermission''] \<and>
   structurally_valid flow_definition_variant ''MoveFiles'' [''MoveFiles'', ''SetPermission'']"
proof -
  have last: "path_to_end (states flow_definition) ''SetPermission'' q = (q = [''SetPermission''])"
    for q
    by (rule path_from_end) (simp_all add: states_def flow_definition_def is_end_def)
  have path: "path_to_end (states flow_definition) ''MoveFiles'' q =
      (q = [''MoveFiles'', ''SetPermission''])" for q
    by (rule path_from_step [OF _ _ _ last])
      (simp_all add: states_def flow_definition_def is_end_def)
  have last': "path_to_end (states flow_definition_variant) ''SetPermission'' q =
      (q = [''SetPermission''])" for q
    by (rule path_from_end) (simp_all add: states_def flow_definition_variant_def is_end_def)
  have path': "path_to_end (states flow_definition_variant) ''MoveFiles'' q =
      (q = [''MoveFiles'', ''SetPermission''])" for q
    by (rule path_from_step [OF _ _ _ last'])
      (simp_all add: states_def flow_definition_variant_def is_end_def)
  have "structurally_valid flow_definition ''MoveFiles'' [''MoveFiles'', ''SetPermission'']"
    unfolding structurally_valid_def using path
    by (simp add: start_at_def state_names_def states_def next_ok_def is_end_def
        flow_definition_def)
  moreover
  have "structurally_valid flow_definition_variant ''MoveFiles'' [''MoveFiles'', ''SetPermission'']"
    unfolding structurally_valid_def using path'
    by (simp add: start_at_def state_names_def states_def next_ok_def is_end_def
        flow_definition_variant_def)
  ultimately show ?thesis by blast
qed

subsection \<open>Every placeholder has its input\<close>

text \<open>
  Claim C7: every placeholder of the flow definition (the \<^verbatim>\<open>Parameters\<close> entries whose
  key ends in \<^verbatim>\<open>.$\<close>, all of which name a path \<^verbatim>\<open>$.input.name\<close>) has an entry under
  the key \<^verbatim>\<open>input\<close> of the flow input the notebook builds, whatever the identity id
  is; this holds for the main notebook and for the variant.
\<close>

theorem placeholders_have_input:
  "placeholders flow_definition =
     [''$.input.source_endpoint_id'', ''$.input.destination_endpoint_id'',
      ''$.input.source_path'', ''$.input.destination_path'',
      ''$.input.destination_endpoint_id'', ''$.input.destination_path'',
      ''$.input.principal'', ''$.input.principal_type''] \<and>
   placeholders flow_definition_variant = placeholders flow_definition \<and>
   list_all (input_entry (flow_input lib identity_id)) (placeholders flow_definition) \<and>
   list_all (input_entry (flow_input_variant identity_id)) (placeholders flow_definition_variant)"
proof -
  have main: "placeholders flow_definition =
     [''$.input.source_endpoint_id'', ''$.input.destination_endpoint_id'',
      ''$.input.source_path'', ''$.input.destination_path'',
      ''$.input.destination_endpoint_id'', ''$.input.destination_path'',
      ''$.input.principal'', ''$.input.principal_type'']"
    by (simp add: placeholders_def states_def flow_definition_def suffix_def)
  have variant: "placeholders flow_definition_variant = placeholders flow_definition"
    unfolding main
    by (simp add: placeholders_def states_def flow_definition_variant_def suffix_def)
  have "list_all (input_entry (flow_input lib identity_id)) (placeholders flow_definition)"
    unfolding main by (simp add: input_entry_def flow_input_def)
  moreover
  have "list_all (input_entry (flow_input_variant identity_id)) (placeholders flow_definition_variant)"
    unfolding variant main by (simp add: input_entry_def flow_input_variant_def)
  ultimately show ?thesis using main variant by blast
qed

section \<open>Properties of the token cell and of the authorization\<close>

subsection \<open>A flow that is authorized is not authorized again\<close>

text \<open>
  Claim C10: the authorization cell is idempotent on the cache of flow scopes. When the
  scope of the flow is already a key of \<^verbatim>\<open>saved_flow_scopes\<close>, the cell exchanges no
  token (the world, and with it the list of remote calls, is as before) and leaves the
  cache unchanged; hence the cell run again after a run that completed does nothing. And
  \<^verbatim>\<open>get_flow_authorizer\<close> reads the cached entry of the requested scope and nothing
  else: on two caches that agree on that entry it gives the same result, whatever the
  other entries, the flow URL and the client id are. It is a function of the cache that
  returns an authorizer (or raises); it has no cache to give back.
\<close>

theorem authorization_idempotent:
  "(dict_key flow_scope = Inr k \<and> saved_flow_scopes k \<noteq> None \<longrightarrow>
      authorize_flow auth auth_code flow_scope saved_flow_scopes w = (Inr saved_flow_scopes, w)) \<and>
   (authorize_flow auth auth_code flow_scope saved_flow_scopes w = (Inr saved', w') \<longrightarrow>
      authorize_flow auth2 auth_code2 flow_scope saved' w' = (Inr saved', w')) \<and>
   (dict_key flow_scope = Inr k \<and> saved_flow_scopes k = saved2 k \<longrightarrow>
      get_flow_authorizer saved_flow_scopes flow_url flow_scope client =
      get_flow_authorizer saved2 flow_url2 flow_scope client2)"
proof -
  have cached: "authorize_flow a c flow_scope s v = (Inr s, v)"
    if "dict_key flow_scope = Inr k" "s k \<noteq> None" for a c s v k
    using that by (auto simp: authorize_flow_def)
  have again: "authorize_flow auth2 auth_code2 flow_scope saved' w' = (Inr saved', w')"
    if run: "authorize_flow auth auth_code flow_scope saved_flow_scopes w = (Inr saved', w')"
  proof -
    from run obtain k' where key: "dict_key flow_scope = Inr k'"
      by (cases "dict_key flow_scope") (simp_all add: authorize_flow_def)
    from run key have "saved' k' \<noteq> None"
      by (auto simp: authorize_flow_def Let_def split: if_splits sum.splits)
    with key show ?thesis by (rule cached)
  qed
  have reads: "get_flow_authorizer saved_flow_scopes flow_url flow_scope client =
      get_flow_authorizer saved2 flow_url2 flow_scope client2"
    if "dict_key flow_scope = Inr k" "saved_flow_scopes k = saved2 k"
    using that by (simp add: get_flow_authorizer_def)
  from cached again reads show ?thesis by blast
qed

theorem authorization_idempotent_witness:
  "authorize_flow mock_auth ''code'' (JStr ''scope-1'')
     [JStr ''scope-1'' \<mapsto> JObj [(''access_token'', JStr ''cached'')]] world0 =
     (Inr [JStr ''scope-1'' \<mapsto> JObj [(''access_token'', JStr ''cached'')]], world0) \<and>
   authorize_flow mock_auth ''code'' (JStr ''scope-1'') Map.empty world0 =
     (Inr [JStr ''scope-1'' \<mapsto> JObj [(''access_token'', JStr ''flow-token'')]],
      \<lparr>calls = [ExchangeCode ''code''], slept = 0\<rparr>) \<and>
   authorize_flow mock_auth ''other code'' (JStr ''scope-1'')
     [JStr ''scope-1'' \<mapsto> JObj [(''access_token'', JStr ''flow-token'')]]
     \<lparr>calls = [ExchangeCode ''code''], slept = 0\<rparr> =
     (Inr [JStr ''scope-1'' \<mapsto> JObj [(''access_token'', JStr ''flow-token'')]],
      \<lparr>calls = [ExchangeCode ''code''], slept = 0\<rparr>) \<and>
   get_flow_authorizer [JStr ''scope-1'' \<mapsto> JObj [(''access_token'', JStr ''cached'')]]
     (JStr ''url'') (JStr ''scope-1'') (JStr ''client'') =
   get_flow_authorizer [JStr ''scope-1'' \<mapsto> JObj [(''access_token'', JStr ''cached'')],
       JStr ''scope-2'' \<mapsto> JNull] JNull (JStr ''scope-1'') JNull"
proof -
  let ?cached = "[JStr ''scope-1'' \<mapsto> JObj [(''access_token'', JStr ''cached'')]]"
  let ?fresh = "[JStr ''scope-1'' \<mapsto> JObj [(''access_token'', JStr ''flow-token'')]]"
  let ?w = "\<lparr>calls = [ExchangeCode ''code''], slept = 0\<rparr>"
  have first: "authorize_flow mock_auth ''code'' (JStr ''scope-1'') Map.empty world0 =
      (Inr ?fresh, ?w)"
    by (simp add: authorize_flow_def mock_auth_def issue_def world0_def)
  note inst = authorization_idempotent [where flow_scope = "JStr ''scope-1''"
      and k = "JStr ''scope-1''" and auth = mock_auth and auth_code = "''code''"]
  have "authorize_flow mock_auth ''code'' (JStr ''scope-1'') ?cached world0 =
      (Inr ?cached, world0)"
    using inst [where saved_flow_scopes = ?cached and w = world0] by simp
  moreover
  have "authorize_flow mock_auth ''other code'' (JStr ''scope-1'') ?fresh ?w = (Inr ?fresh, ?w)"
    using inst [where saved_flow_scopes = Map.empty and w = world0 and saved' = ?fresh
        and w' = ?w and ?auth2.0 = mock_auth and ?auth_code2.0 = "''other code''"] first
    by simp
  moreover
  have "get_flow_authorizer ?cached (JStr ''url'') (JStr ''scope-1'') (JStr ''client'') =
      get_flow_authorizer (?cached(JStr ''scope-2'' \<mapsto> JNull)) JNull (JStr ''scope-1'') JNull"
    using inst [where saved_flow_scopes = ?cached
        and ?saved2.0 = "?cached(JStr ''scope-2'' \<mapsto> JNull)"
        and flow_url = "JStr ''url''" and client = "JStr ''client''"
        and ?flow_url2.0 = JNull and ?client2.0 = JNull]
    by simp
  ultimately show ?thesis using first by simp
qed

subsection \<open>Without the token bundle nothing is called\<close>

text \<open>
  Claim C8: when the variable \<^verbatim>\<open>GLOBUS_DATA\<close> is not set, loading the tokens fails (with
  the \<^verbatim>\<open>TypeError\<close> of \<^verbatim>\<open>base64.b64decode\<close>) and the run ends there. In the main
  notebook no authorizer and no client is built, in the variant the identity lookup that
  follows in the same cell is not issued, and in both the later cells, whatever they are,
  are not run: the run ends with the exception and with the world it started in, so no
  remote call is issued after the token step.
\<close>

theorem missing_token_bundle_is_fatal:
  assumes "os_getenv env ''GLOBUS_DATA'' = None"
  shows "load_tokens lib env = Inl TypeError \<and>
         and_then (token_cell lib env w) later_cells = Some (Inl TypeError, w) \<and>
         and_then (token_cell_variant lib auth env w) later_cells_variant =
           Some (Inl TypeError, w)"
proof -
  from assms have "load_tokens lib env = Inl TypeError"
    by (simp add: load_tokens_def base64_b64decode_def)
  then show ?thesis
    by (simp add: token_cell_def token_cell_variant_def and_then_def)
qed

theorem missing_token_bundle_is_fatal_witness:
  "os_getenv Map.empty ''GLOBUS_DATA'' = None \<and>
   load_tokens mock_lib Map.empty = Inl TypeError \<and>
   and_then (token_cell mock_lib Map.empty world0)
     (\<lambda>(tokens, saved_flow_scopes, flows_authorizer) w.
        run_the_flow mock_lib (mock_services 0 ''SUCCEEDED'') JNull JNull JNull JNull w) =
     Some (Inl TypeError, world0) \<and>
   and_then (token_cell_variant mock_lib mock_auth Map.empty world0)
     (\<lambda>(tokens, primary_identity, identity_id) w.
        run_the_flow_variant (mock_services 0 ''SUCCEEDED'') JNull JNull
          (flow_input_variant identity_id) w) =
     Some (Inl TypeError, world0)"
proof -
  have h: "os_getenv Map.empty ''GLOBUS_DATA'' = None"
    by (simp add: os_getenv_def)
  from missing_token_bundle_is_fatal [OF h] h show ?thesis
    by blast
qed

end
